theory Spec2Isabelle
  imports
    Main
    "HOL-Library.Word"
    "HOL-Library.Char_ord"
    "HOL-Library.List_Lexorder"
    "HOL-Library.Multiset"
begin

unbundle bit_operations_syntax

section \<open>Common data\<close>

text \<open>
  Both scripts are straight-line Python. Every exception they can raise is a value of
  \<open>error\<close>; a stage returns \<open>error + 'a\<close> with \<open>Inl\<close> for the exception, and
  \<open>and_then\<close> sequences two stages, stopping at the first exception.
\<close>

datatype error = ValueError | IndexError | TypeError | KeyError | OverflowError

definition and_then :: "error + 'a \<Rightarrow> ('a \<Rightarrow> error + 'b) \<Rightarrow> error + 'b" where
  "and_then r f = (case r of Inl e \<Rightarrow> Inl e | Inr v \<Rightarrow> f v)"

fun traverse :: "('a \<Rightarrow> error + 'b) \<Rightarrow> 'a list \<Rightarrow> error + 'b list" where
  "traverse f [] = Inr []"
| "traverse f (x # xs) =
     (case f x of
        Inl e \<Rightarrow> Inl e
      | Inr v \<Rightarrow> (case traverse f xs of Inl e \<Rightarrow> Inl e | Inr vs \<Rightarrow> Inr (v # vs)))"

text \<open>
  A two-dimensional numpy array: its shape and its elements in row-major order. A numpy
  array always holds \<open>rows * cols\<close> elements (\<open>well_shaped\<close>). The elements are kept as
  bit patterns: a 32-bit float is a \<open>32 word\<close>, a 64-bit float a \<open>64 word\<close>, a byte of a
  file an \<open>8 word\<close>. No arithmetic is done on them.
\<close>

type_synonym byte = "8 word"
type_synonym float32 = "32 word"
type_synonym float64 = "64 word"

record 'a ndarray =
  shape :: "nat \<times> nat"
  data :: "'a list"

definition well_shaped :: "'a ndarray \<Rightarrow> bool" where
  "well_shaped a = (length (data a) = fst (shape a) * snd (shape a))"

definition row :: "'a ndarray \<Rightarrow> nat \<Rightarrow> 'a list" where
  "row a i = take (snd (shape a)) (drop (i * snd (shape a)) (data a))"

text \<open>A JSON scalar of the labels document: a string or an integer.\<close>

datatype label = LStr string | LInt int

fun isinstance_str :: "label \<Rightarrow> bool" where
  "isinstance_str (LStr s) = True"
| "isinstance_str (LInt i) = False"

text \<open>
  A value of a JSON document as \<open>json.load\<close> returns it: \<open>null\<close>, a boolean, an integer,
  a number with a fraction (kept as the bit pattern of its 64-bit float), a string, an
  array or an object.
\<close>

datatype json =
    JNull
  | JBool bool
  | JInt int
  | JFloat float64
  | JStr string
  | JArr "json list"
  | JObj "(string \<times> json) list"

text \<open>
  The metadata document. \<open>dtype = None\<close> is a document without that key; a document
  with the key holds any JSON value there.
\<close>

record meta =
  count :: int
  dim :: int
  dtype :: "json option"
  model :: string
  normalized :: bool

text \<open>Python's \<open>str\<close> on an integer: decimal digits, \<open>-\<close> in front of a negative.\<close>

fun str_nat :: "nat \<Rightarrow> string" where
  "str_nat n =
     (if n < 10 then [''0123456789'' ! n]
      else str_nat (n div 10) @ [''0123456789'' ! (n mod 10)])"

declare str_nat.simps [simp del]

definition str_int :: "int \<Rightarrow> string" where
  "str_int i = (if i < 0 then CHR ''-'' # str_nat (nat (- i)) else str_nat (nat i))"

section \<open>Raw little-endian element streams\<close>

text \<open>
  \<open>ndarray.tofile\<close> writes the elements in row-major order, each as its bytes in native
  (little-endian) order, with no header; \<open>numpy.fromfile\<close> reads as many whole elements
  as the file holds, \<open>file size div item size\<close>, and leaves a shorter tail unread.
\<close>

definition f32_bytes :: "float32 \<Rightarrow> byte list" where
  "f32_bytes w = [ucast w, ucast (drop_bit 8 w), ucast (drop_bit 16 w), ucast (drop_bit 24 w)]"

fun le_word :: "byte list \<Rightarrow> 'a::len word" where
  "le_word [] = 0"
| "le_word (b # bs) = ucast b OR push_bit 8 (le_word bs)"

definition tofile :: "float32 ndarray \<Rightarrow> byte list" where
  "tofile a = concat (map f32_bytes (data a))"

function items :: "nat \<Rightarrow> byte list \<Rightarrow> byte list list" where
  "items k bs = (if k = 0 \<or> length bs < k then [] else take k bs # items k (drop k bs))"
  by pat_completeness auto
termination
  by (relation "measure (\<lambda>(k, bs). length bs)") auto

declare items.simps [simp del]

definition fromfile32 :: "byte list \<Rightarrow> float32 list" where
  "fromfile32 bs = map le_word (items 4 bs)"

definition fromfile64 :: "byte list \<Rightarrow> float64 list" where
  "fromfile64 bs = map le_word (items 8 bs)"

text \<open>
  \<open>ndarray.reshape(a, b)\<close> of a one-dimensional array: a negative entry is the one
  unknown dimension, inferred from the size; two of them are refused; otherwise the
  size has to be \<open>a * b\<close>. Every refusal is numpy's \<open>ValueError\<close>.

  numpy refuses one more kind of shape, which \<open>reshape\<close> here does not: a dimension
  outside the index range of the platform, and a shape whose size in bytes, the item
  size times every dimension that is not zero, is outside it (\<open>2 ^ 63\<close> and more on a
  64-bit platform). The shape of an array that exists is within that range; the
  statements below on what the loader returns for a given \<open>count\<close> and \<open>dim\<close> are about
  the dimensions within it, and say so in their hypotheses.
\<close>

definition reshape :: "'a list \<Rightarrow> int \<Rightarrow> int \<Rightarrow> error + 'a ndarray" where
  "reshape xs a b =
     (let size = int (length xs) in
      if a < 0 \<and> b < 0 then Inl ValueError
      else if a < 0 then
        (if b = 0 \<or> size mod b \<noteq> 0 then Inl ValueError
         else Inr \<lparr>shape = (nat (size div b), nat b), data = xs\<rparr>)
      else if b < 0 then
        (if a = 0 \<or> size mod a \<noteq> 0 then Inl ValueError
         else Inr \<lparr>shape = (nat a, nat (size div a)), data = xs\<rparr>)
      else if size \<noteq> a * b then Inl ValueError
      else Inr \<lparr>shape = (nat a, nat b), data = xs\<rparr>)"

section \<open>embedder.py\<close>

text \<open>
  The table read from the CSV file is a list of rows, each the cell of the text column
  and the cell of the label column. A cell is missing (\<open>NaN\<close>), a string or a number.
  \<open>dropna\<close> removes the rows with a missing cell, \<open>astype(str)\<close> is Python's \<open>str\<close> on
  each cell.
\<close>

datatype cell = NaN | Str string | Num int

fun isna :: "cell \<Rightarrow> bool" where
  "isna NaN = True"
| "isna (Str s) = False"
| "isna (Num i) = False"

definition dropna :: "(cell \<times> cell) list \<Rightarrow> (cell \<times> cell) list" where
  "dropna df = filter (\<lambda>(t, l). \<not> isna t \<and> \<not> isna l) df"

fun astype_str :: "cell \<Rightarrow> string" where
  "astype_str NaN = ''nan''"
| "astype_str (Str s) = s"
| "astype_str (Num i) = str_int i"

definition MODEL_NAME :: string where
  "MODEL_NAME = ''sentence-transformers/all-MiniLM-L6-v2''"

definition NORMALIZE :: bool where
  "NORMALIZE = True"

definition BATCH_SIZE :: nat where
  "BATCH_SIZE = 256"

text \<open>
  The loop \<open>for start in range(0, len(texts), B)\<close> with its slice
  \<open>texts[start:start + B]\<close>: the list of the batches handed to the model, in order.
\<close>

function batches :: "nat \<Rightarrow> 'a list \<Rightarrow> nat \<Rightarrow> 'a list list" where
  "batches B texts start =
     (if B = 0 \<or> length texts \<le> start then []
      else take B (drop start texts) # batches B texts (start + B))"
  by pat_completeness auto
termination
  by (relation "measure (\<lambda>(B, texts, start). length texts - start)") auto

declare batches.simps [simp del]

text \<open>\<open>numpy.vstack\<close>: no array to stack, or arrays of different widths, is a \<open>ValueError\<close>.\<close>

fun vstack :: "'a ndarray list \<Rightarrow> error + 'a ndarray" where
  "vstack [] = Inl ValueError"
| "vstack (a # as) =
     (if \<forall>b \<in> set as. snd (shape b) = snd (shape a)
      then Inr \<lparr>shape = (sum_list (map (\<lambda>b. fst (shape b)) (a # as)), snd (shape a)),
                data = concat (map data (a # as))\<rparr>
      else Inl ValueError)"

text \<open>
  Lines 33 to 48. The sentence encoder is the parameter \<open>encode\<close>: it maps a batch of
  texts to an array of 32-bit floats or raises. \<open>range\<close> refuses a step of zero. The
  stacked array is already of 32-bit floats, so \<open>astype(np.float32)\<close> changes nothing.
\<close>

definition compute_embeddings ::
  "nat \<Rightarrow> (string list \<Rightarrow> error + float32 ndarray) \<Rightarrow> string list \<Rightarrow> error + float32 ndarray" where
  "compute_embeddings B encode texts =
     (if B = 0 then Inl ValueError
      else and_then (traverse encode (batches B texts 0)) vstack)"

record artifacts =
  embed_out :: "byte list"
  label_out :: "label list"
  meta_out :: meta

text \<open>Lines 49 to 72: the three artifacts written for an embedding matrix and its labels.\<close>

definition write_bundle :: "float32 ndarray \<Rightarrow> string list \<Rightarrow> artifacts" where
  "write_bundle embeddings labels =
     (let (num_samples, d) = shape embeddings in
      \<lparr>embed_out = tofile embeddings,
       label_out = map LStr labels,
       meta_out = \<lparr>count = int num_samples, dim = int d, dtype = Some (JStr ''float32''),
                   model = MODEL_NAME, normalized = NORMALIZE\<rparr>\<rparr>)"

definition embedder_main ::
  "nat \<Rightarrow> (string list \<Rightarrow> error + float32 ndarray) \<Rightarrow> (cell \<times> cell) list \<Rightarrow> error + artifacts" where
  "embedder_main B encode df0 =
     (let df = dropna df0;
          texts = map (\<lambda>(t, l). astype_str t) df;
          labels = map (\<lambda>(t, l). astype_str l) df
      in and_then (compute_embeddings B encode texts)
           (\<lambda>embeddings. Inr (write_bundle embeddings labels)))"

section \<open>train_lr_from_bin.py\<close>

subsection \<open>Loading the embeddings\<close>

datatype np_dtype = Float32 | Float64

text \<open>Line 16: \<open>meta.get("dtype", "float32")\<close> compared with \<open>"float32"\<close>.\<close>

definition dtype_of :: "meta \<Rightarrow> np_dtype" where
  "dtype_of m =
     (if (case dtype m of None \<Rightarrow> JStr ''float32'' | Some d \<Rightarrow> d) = JStr ''float32''
      then Float32 else Float64)"

datatype array = F32 "float32 ndarray" | F64 "float64 ndarray"

text \<open>Lines 24 and 25: the matrix \<open>X\<close>.\<close>

definition load_X :: "meta \<Rightarrow> byte list \<Rightarrow> error + array" where
  "load_X m bin =
     (case dtype_of m of
        Float32 \<Rightarrow> and_then (reshape (fromfile32 bin) (count m) (dim m)) (\<lambda>a. Inr (F32 a))
      | Float64 \<Rightarrow> and_then (reshape (fromfile64 bin) (count m) (dim m)) (\<lambda>a. Inr (F64 a)))"

subsection \<open>Encoding the labels\<close>

text \<open>
  \<open>np.array(ids, dtype=np.int32)\<close> stores each id in 32 bits. The ids are kept as
  32-bit words; an id outside the 32-bit range is cut to its low 32 bits here (numpy
  versions differ there: older ones cut, newer ones raise), and no statement below is
  about such an id.
\<close>

type_synonym int32 = "32 word"

definition np_array_int32 :: "int list \<Rightarrow> int32 list" where
  "np_array_int32 ids = map word_of_int ids"

text \<open>
  The labels as strings, when all of them are, and as integers, when all of them are.
  \<open>sorted(list(set(labels_raw)))\<close> compares the distinct labels with each other:
  strings by code points, integers by value, and a string with an integer not at all
  (\<open>TypeError\<close>). So it succeeds exactly on a list of one kind, and gives its distinct
  elements in ascending order.
\<close>

fun strs_of :: "label list \<Rightarrow> string list option" where
  "strs_of [] = Some []"
| "strs_of (LStr s # ls) = map_option (\<lambda>ss. s # ss) (strs_of ls)"
| "strs_of (LInt i # ls) = None"

fun ints_of :: "label list \<Rightarrow> int list option" where
  "ints_of [] = Some []"
| "ints_of (LInt i # ls) = map_option (\<lambda>is. i # is) (ints_of ls)"
| "ints_of (LStr s # ls) = None"

definition dict_get :: "('k \<times> 'v) list \<Rightarrow> 'k \<Rightarrow> error + 'v" where
  "dict_get d k = (case map_of d k of None \<Rightarrow> Inl KeyError | Some v \<Rightarrow> Inr v)"

record encoding =
  unique_labels :: "label list"
  label_to_id :: "(string \<times> int) list"
  y :: "int32 list"

text \<open>Lines 35 to 37: the branch taken when the first label is a string.\<close>

definition str_branch :: "label list \<Rightarrow> error + encoding" where
  "str_branch labels_raw =
     (case strs_of labels_raw of
        None \<Rightarrow> Inl TypeError
      | Some ss \<Rightarrow>
          (let unique = sort (remdups ss);
               l2i = map (\<lambda>(i, lbl). (lbl, int i)) (List.enumerate 0 unique)
           in and_then (traverse (dict_get l2i) ss)
                (\<lambda>ids. Inr \<lparr>unique_labels = map LStr unique, label_to_id = l2i,
                            y = np_array_int32 ids\<rparr>)))"

text \<open>Lines 39 to 41: the branch taken otherwise.\<close>

definition int_branch :: "label list \<Rightarrow> error + encoding" where
  "int_branch labels_raw =
     (case ints_of labels_raw of
        None \<Rightarrow> Inl TypeError
      | Some is \<Rightarrow>
          (let unique = sort (remdups is)
           in Inr \<lparr>unique_labels = map LInt unique,
                   label_to_id = map (\<lambda>lbl. (str_int lbl, lbl)) unique,
                   y = np_array_int32 is\<rparr>))"

text \<open>Line 34: \<open>labels_raw[0]\<close> raises \<open>IndexError\<close> on an empty list.\<close>

definition label_encoder :: "label list \<Rightarrow> error + encoding" where
  "label_encoder labels_raw =
     (case labels_raw of
        [] \<Rightarrow> Inl IndexError
      | l0 # _ \<Rightarrow> if isinstance_str l0 then str_branch labels_raw else int_branch labels_raw)"

subsection \<open>Fitting and exporting\<close>

text \<open>
  The optimizer is the parameter \<open>fit\<close>: from \<open>X\<close> and \<open>y\<close> it gives the coefficient
  matrix and the intercepts, as 64-bit floats, or raises. Narrowing a 64-bit float to
  32 bits is the parameter \<open>astype_f32\<close>. \<open>tolist\<close> of a matrix is the list of its rows.
\<close>

record fitted =
  coef :: "float64 ndarray"
  intercept :: "float64 list"

definition tolist :: "'a ndarray \<Rightarrow> 'a list list" where
  "tolist a = map (row a) [0..<fst (shape a)]"

definition astype :: "('a \<Rightarrow> 'b) \<Rightarrow> 'a ndarray \<Rightarrow> 'b ndarray" where
  "astype f a = \<lparr>shape = shape a, data = map f (data a)\<rparr>"

record export_doc =
  num_classes :: int
  num_features :: int
  classes :: "label list"
  export_label_to_id :: "(string \<times> int) list"
  weights :: "float32 list list"
  bias :: "float32 list"

text \<open>Lines 57 to 64: the exported document.\<close>

definition export :: "(float64 \<Rightarrow> float32) \<Rightarrow> meta \<Rightarrow> encoding \<Rightarrow> fitted \<Rightarrow> export_doc" where
  "export astype_f32 m enc clf =
     \<lparr>num_classes = int (length (unique_labels enc)),
      num_features = dim m,
      classes = unique_labels enc,
      export_label_to_id = label_to_id enc,
      weights = tolist (astype astype_f32 (coef clf)),
      bias = map astype_f32 (intercept clf)\<rparr>"

text \<open>The whole script: load, encode, fit, export.\<close>

definition train ::
  "(float64 \<Rightarrow> float32) \<Rightarrow> (array \<Rightarrow> int32 list \<Rightarrow> error + fitted) \<Rightarrow>
     meta \<Rightarrow> byte list \<Rightarrow> label list \<Rightarrow> error + export_doc" where
  "train astype_f32 fit m bin labels_raw =
     and_then (load_X m bin) (\<lambda>X.
     and_then (label_encoder labels_raw) (\<lambda>enc.
     and_then (fit X (y enc)) (\<lambda>clf.
     Inr (export astype_f32 m enc clf))))"

subsection \<open>The integer labels as the specification words them\<close>

text \<open>
  Section 4.2 of the specification says that integer labels become string keys whose
  ids come from the sorted-string order of the distinct labels. That reading, to be
  compared with \<open>int_branch\<close>: the distinct labels as strings, in ascending string
  order, numbered from 0.
\<close>

definition spec_sorted_string_ids :: "int list \<Rightarrow> (string \<times> int) list" where
  "spec_sorted_string_ids is =
     (let unique = sort (remdups (map str_int is))
      in zip unique (map int [0..<length unique]))"

section \<open>Stand-ins for the external capabilities\<close>

text \<open>
  The concrete scenarios below need an encoder, an optimizer and a narrowing. These
  stand-ins are deterministic: the encoder gives each text a vector of dimension 4, the
  optimizer returns all-zero parameters in the shape the library uses for a problem
  with two classes (one row, one intercept), and the narrowing keeps the high 32 bits,
  which is exact on zero.
\<close>

definition stub_vec :: "string \<Rightarrow> float32 list" where
  "stub_vec t = [of_nat (length t), 0, 0, 1]"

definition stub_encode :: "string list \<Rightarrow> error + float32 ndarray" where
  "stub_encode ts = Inr \<lparr>shape = (length ts, 4), data = concat (map stub_vec ts)\<rparr>"

definition stub_astype_f32 :: "float64 \<Rightarrow> float32" where
  "stub_astype_f32 w = ucast (drop_bit 32 w)"

definition stub_fit :: "array \<Rightarrow> int32 list \<Rightarrow> error + fitted" where
  "stub_fit X ys =
     (let d = (case X of F32 a \<Rightarrow> snd (shape a) | F64 a \<Rightarrow> snd (shape a))
      in Inr \<lparr>coef = \<lparr>shape = (1, d), data = replicate d 0\<rparr>, intercept = [0]\<rparr>)"

section \<open>The binary stream\<close>

lemma le_word_f32_bytes: "(le_word (f32_bytes w) :: float32) = w"
  unfolding f32_bytes_def
  apply simp
  apply (rule bit_word_eqI)
  subgoal for n
    apply (cases "n < 8"; cases "n < 16"; cases "n < 24")
           apply (auto simp add: bit_simps not_less)
    done
  done

lemma length_f32_bytes: "length (f32_bytes w) = 4"
  by (simp add: f32_bytes_def)

lemma items_append:
  "length b = k \<Longrightarrow> 0 < k \<Longrightarrow> items k (b @ bs) = b # items k bs"
  by (subst items.simps) auto

lemma items_Nil: "items k [] = []"
  by (subst items.simps) auto

lemma fromfile32_tofile: "fromfile32 (concat (map f32_bytes xs)) = xs"
  by (induction xs)
    (simp_all add: fromfile32_def items_Nil items_append length_f32_bytes le_word_f32_bytes)

lemma length_items: "0 < k \<Longrightarrow> length (items k bs) = length bs div k"
proof (induction k bs rule: items.induct)
  case (1 k bs)
  show ?case
  proof (cases "length bs < k")
    case True
    then show ?thesis by (subst items.simps) simp
  next
    case False
    with 1 have "length (items k (drop k bs)) = (length bs - k) div k"
      by simp
    with False 1(2) show ?thesis
      by (subst items.simps) (simp add: le_div_geq)
  qed
qed

lemma length_tofile: "length (tofile a) = 4 * length (data a)"
  by (simp add: tofile_def length_concat comp_def length_f32_bytes sum_list_triv)

text \<open>
  C1. Round trip: for every embedding matrix of 32-bit floats, the binary stream and
  the metadata written for it, read back by the loader of the training script, give a
  matrix with the same shape and bit-identical elements.
\<close>

theorem bundle_round_trip:
  assumes "well_shaped a"
  shows "load_X (meta_out (write_bundle a labels)) (embed_out (write_bundle a labels))
           = Inr (F32 a)"
proof -
  obtain n d where sh: "shape a = (n, d)"
    by (cases "shape a")
  from assms sh have len: "int (length (data a)) = int n * int d"
    by (simp add: well_shaped_def)
  have "reshape (fromfile32 (tofile a)) (int n) (int d) = Inr a"
    using len sh by (simp add: reshape_def tofile_def fromfile32_tofile)
  then show ?thesis
    using sh by (simp add: write_bundle_def load_X_def dtype_of_def and_then_def)
qed

theorem bundle_round_trip_witness:
  "well_shaped \<lparr>shape = (1, 2), data = [0x3F800000, 0xBF000000 :: float32]\<rparr> \<and>
   load_X
     (meta_out (write_bundle \<lparr>shape = (1, 2), data = [0x3F800000, 0xBF000000]\<rparr> [''leisure'']))
     (embed_out (write_bundle \<lparr>shape = (1, 2), data = [0x3F800000, 0xBF000000]\<rparr> [''leisure'']))
     = Inr (F32 \<lparr>shape = (1, 2), data = [0x3F800000, 0xBF000000]\<rparr>)"
proof -
  have w: "well_shaped \<lparr>shape = (1, 2), data = [0x3F800000, 0xBF000000 :: float32]\<rparr>"
    by (simp add: well_shaped_def)
  from w bundle_round_trip [OF w, of "[''leisure'']"] show ?thesis
    by simp
qed

section \<open>What the loader checks\<close>

lemma length_fromfile32: "length (fromfile32 bin) = length bin div 4"
  by (simp add: fromfile32_def length_items)

lemma length_fromfile64: "length (fromfile64 bin) = length bin div 8"
  by (simp add: fromfile64_def length_items)

lemma reshape_nonneg:
  "0 \<le> a \<Longrightarrow> 0 \<le> b \<Longrightarrow>
   reshape xs a b =
     (if int (length xs) = a * b then Inr \<lparr>shape = (nat a, nat b), data = xs\<rparr>
      else Inl ValueError)"
  by (simp add: reshape_def)

lemma items_short: "length bs < k \<Longrightarrow> items k bs = []"
  by (subst items.simps) simp

lemma items_whole: "0 < k \<Longrightarrow> items k (take (k * (length bs div k)) bs) = items k bs"
proof (induction k bs rule: items.induct)
  case (1 k bs)
  show ?case
  proof (cases "length bs < k")
    case True
    then show ?thesis by (simp add: items_Nil items_short)
  next
    case False
    then obtain q where q: "length bs div k = Suc q" "(length bs - k) div k = q"
      using 1(2) by (simp add: le_div_geq)
    have ih: "items k (take (k * q) (drop k bs)) = items k (drop k bs)"
      using 1 False q by simp
    have "take (k * Suc q) bs = take k bs @ take (k * q) (drop k bs)"
      by (simp add: take_add)
    moreover have "length (take k bs) = k"
      using False by simp
    ultimately have "items k (take (k * Suc q) bs) = take k bs # items k (take (k * q) (drop k bs))"
      using 1(2) by (simp add: items_append)
    also have "\<dots> = items k bs"
      using ih False 1(2) by (subst (2) items.simps) simp
    finally show ?thesis using q by simp
  qed
qed

text \<open>
  C2, as stated, fails: a metadata document with \<open>dtype = "float64"\<close> and a stream of
  eight bytes is loaded, as one 64-bit element.
\<close>

theorem reader_dtype_counterexample:
  "dtype \<lparr>count = 1, dim = 1, dtype = Some (JStr ''float64''), model = ''m'', normalized = True\<rparr>
     \<noteq> Some (JStr ''float32'') \<and>
   load_X \<lparr>count = 1, dim = 1, dtype = Some (JStr ''float64''), model = ''m'', normalized = True\<rparr>
     [0, 0, 0, 0, 0, 0, 0xF0, 0x3F]
     = Inr (F64 \<lparr>shape = (1, 1), data = [0x3FF0000000000000]\<rparr>)"
  by (simp add: load_X_def dtype_of_def reshape_def and_then_def fromfile64_def items.simps)

text \<open>
  C2, amended. For every metadata document whose \<open>dtype\<close> is present and is any JSON
  value other than the string \<open>"float32"\<close> (another string, \<open>null\<close>, a number), with
  \<open>count\<close> and \<open>dim\<close> not negative and the \<open>count \<times> dim\<close> shape of eight-byte elements
  within the index range (eight times every non-zero dimension below \<open>2 ^ 63\<close>), the
  loader reads the stream as 64-bit elements of eight bytes: it returns the
  \<open>count \<times> dim\<close> matrix of the whole eight-byte groups when there are \<open>count * dim\<close> of
  them, and fails otherwise.
\<close>

theorem reader_other_dtype_is_float64:
  assumes "dtype m = Some d" and "d \<noteq> JStr ''float32''" and "0 \<le> count m" and "0 \<le> dim m"
    and "8 * max 1 (count m) * max 1 (dim m) < 2 ^ 63"
  shows "load_X m bin =
           (if int (length bin div 8) = count m * dim m
            then Inr (F64 \<lparr>shape = (nat (count m), nat (dim m)), data = fromfile64 bin\<rparr>)
            else Inl ValueError)"
  using assms(1-4)
  by (simp add: load_X_def dtype_of_def reshape_nonneg length_fromfile64 and_then_def)

theorem reader_other_dtype_is_float64_witness:
  "dtype \<lparr>count = 1, dim = 1, dtype = Some JNull, model = ''m'', normalized = True\<rparr>
     = Some JNull \<and>
   JNull \<noteq> JStr ''float32'' \<and>
   8 * max 1 (count \<lparr>count = 1, dim = 1, dtype = Some JNull, model = ''m'', normalized = True\<rparr>)
     * max 1 (dim \<lparr>count = 1, dim = 1, dtype = Some JNull, model = ''m'', normalized = True\<rparr>)
     < 2 ^ 63 \<and>
   load_X \<lparr>count = 1, dim = 1, dtype = Some JNull, model = ''m'', normalized = True\<rparr>
     [0, 0, 0, 0, 0, 0, 0xF0, 0x3F]
     = Inr (F64 \<lparr>shape = (1, 1), data = [0x3FF0000000000000]\<rparr>)"
  using reader_other_dtype_is_float64
    [of "\<lparr>count = 1, dim = 1, dtype = Some JNull, model = ''m'', normalized = True\<rparr>"
        JNull "[0, 0, 0, 0, 0, 0, 0xF0, 0x3F]"]
  by (simp add: fromfile64_def items.simps)

text \<open>
  C3, as stated, fails: a stream of five bytes under \<open>count = 1\<close>, \<open>dim = 1\<close> is not
  \<open>count * dim * 4\<close> bytes long, and it is loaded, its fifth byte dropped.
\<close>

theorem reader_byte_length_counterexample:
  "int (length [0, 0, 0x80, 0x3F, 0x7F :: byte])
     \<noteq> count \<lparr>count = 1, dim = 1, dtype = Some (JStr ''float32''), model = ''m'', normalized = True\<rparr>
       * dim \<lparr>count = 1, dim = 1, dtype = Some (JStr ''float32''), model = ''m'', normalized = True\<rparr> * 4 \<and>
   load_X \<lparr>count = 1, dim = 1, dtype = Some (JStr ''float32''), model = ''m'', normalized = True\<rparr>
     [0, 0, 0x80, 0x3F, 0x7F]
     = Inr (F32 \<lparr>shape = (1, 1), data = [0x3F800000]\<rparr>)"
  by (simp add: load_X_def dtype_of_def reshape_def and_then_def fromfile32_def items.simps)

text \<open>
  C3, amended. Under the 32-bit element type, with \<open>count\<close> and \<open>dim\<close> not negative and
  the \<open>count \<times> dim\<close> shape of four-byte elements within the index range (four times every
  non-zero dimension below \<open>2 ^ 63\<close>), the loader first reads the whole four-byte groups
  of the stream, then checks their number: it returns the \<open>count \<times> dim\<close> matrix when
  \<open>stream_byte_length div 4 = count * dim\<close> and fails otherwise. Up to three bytes after
  the last whole group are not read.
\<close>

theorem reader_float32_shape_check:
  assumes "dtype_of m = Float32" and "0 \<le> count m" and "0 \<le> dim m"
    and "4 * max 1 (count m) * max 1 (dim m) < 2 ^ 63"
  shows "load_X m bin =
           (if int (length bin div 4) = count m * dim m
            then Inr (F32 \<lparr>shape = (nat (count m), nat (dim m)), data = fromfile32 bin\<rparr>)
            else Inl ValueError) \<and>
         fromfile32 bin = fromfile32 (take (4 * (length bin div 4)) bin)"
proof -
  have "fromfile32 bin = fromfile32 (take (4 * (length bin div 4)) bin)"
    by (simp add: fromfile32_def items_whole)
  moreover have "load_X m bin =
           (if int (length bin div 4) = count m * dim m
            then Inr (F32 \<lparr>shape = (nat (count m), nat (dim m)), data = fromfile32 bin\<rparr>)
            else Inl ValueError)"
    using assms(1-3) by (simp add: load_X_def reshape_nonneg length_fromfile32 and_then_def)
  ultimately show ?thesis by blast
qed

theorem reader_float32_shape_check_witness:
  "dtype_of \<lparr>count = 1, dim = 2, dtype = None, model = ''m'', normalized = False\<rparr> = Float32 \<and>
   4 * max 1 (count \<lparr>count = 1, dim = 2, dtype = None, model = ''m'', normalized = False\<rparr>)
     * max 1 (dim \<lparr>count = 1, dim = 2, dtype = None, model = ''m'', normalized = False\<rparr>)
     < 2 ^ 63 \<and>
   load_X \<lparr>count = 1, dim = 2, dtype = None, model = ''m'', normalized = False\<rparr>
     [0, 0, 0x80, 0x3F, 0x7F] = Inl ValueError \<and>
   load_X \<lparr>count = 1, dim = 2, dtype = None, model = ''m'', normalized = False\<rparr>
     [0, 0, 0x80, 0x3F, 0, 0, 0, 0xBF, 0x7F, 0x7F]
     = Inr (F32 \<lparr>shape = (1, 2), data = [0x3F800000, 0xBF000000]\<rparr>)"
  using reader_float32_shape_check
    [of "\<lparr>count = 1, dim = 2, dtype = None, model = ''m'', normalized = False\<rparr>"
        "[0, 0, 0x80, 0x3F, 0x7F]"]
    reader_float32_shape_check
    [of "\<lparr>count = 1, dim = 2, dtype = None, model = ''m'', normalized = False\<rparr>"
        "[0, 0, 0x80, 0x3F, 0, 0, 0, 0xBF, 0x7F, 0x7F]"]
  by (simp add: dtype_of_def fromfile32_def items.simps)

section \<open>Batching\<close>

lemma concat_batches: "0 < B \<Longrightarrow> concat (batches B texts start) = drop start texts"
proof (induction B texts start rule: batches.induct)
  case (1 B texts start)
  show ?case
  proof (cases "length texts \<le> start")
    case True
    then show ?thesis by (subst batches.simps) simp
  next
    case False
    with 1 have "concat (batches B texts (start + B)) = drop (start + B) texts"
      by simp
    moreover have "drop (start + B) texts = drop B (drop start texts)"
      by (simp add: add.commute)
    ultimately have "take B (drop start texts) # batches B texts (start + B) = 
        take B (drop start texts) # batches B texts (start + B) \<and>
        concat (take B (drop start texts) # batches B texts (start + B)) = drop start texts"
      by (simp only: concat.simps append_take_drop_id)
    then show ?thesis
      using False 1(2)
      by (subst batches.simps) (simp del: drop_drop)
  qed
qed

lemma batches_bounds:
  "0 < B \<Longrightarrow> b \<in> set (batches B texts start) \<Longrightarrow> b \<noteq> [] \<and> length b \<le> B"
proof (induction B texts start rule: batches.induct)
  case (1 B texts start)
  show ?case
  proof (cases "length texts \<le> start")
    case True
    with 1(3) show ?thesis by (subst (asm) batches.simps) simp
  next
    case False
    from 1(3) have "b = take B (drop start texts) \<or> b \<in> set (batches B texts (start + B))"
      using False 1(2) by (subst (asm) batches.simps) simp
    then show ?thesis
      using 1 False by auto
  qed
qed

lemma batches_full:
  "0 < B \<Longrightarrow> b \<in> set (butlast (batches B texts start)) \<Longrightarrow> length b = B"
proof (induction B texts start rule: batches.induct)
  case (1 B texts start)
  show ?case
  proof (cases "length texts \<le> start")
    case True
    with 1(3) show ?thesis by (subst (asm) batches.simps) simp
  next
    case False
    note nle = False
    have unf: "batches B texts start = take B (drop start texts) # batches B texts (start + B)"
      using False 1(2) by (subst batches.simps) simp
    show ?thesis
    proof (cases "batches B texts (start + B) = []")
      case True
      with 1(3) unf show ?thesis by simp
    next
      case False
      then have "length texts > start + B"
        by (subst (asm) batches.simps) (simp split: if_splits)
      with 1(3) unf False have "b = take B (drop start texts) \<or> b \<in> set (butlast (batches B texts (start + B)))"
        by auto
      then show ?thesis
        using 1(1)[OF _ 1(2)] nle 1(2) \<open>length texts > start + B\<close> by auto
    qed
  qed
qed

lemma batches_nonempty: "0 < B \<Longrightarrow> texts \<noteq> [] \<Longrightarrow> batches B texts 0 \<noteq> []"
  by (subst batches.simps) simp

lemma traverse_total:
  "\<forall>x \<in> set xs. f x = Inr (g x) \<Longrightarrow> traverse f xs = Inr (map g xs)"
  by (induction xs) simp_all

lemma row_concat:
  "\<forall>x \<in> set xs. length (f x) = D \<Longrightarrow> i < length xs \<Longrightarrow>
   take D (drop (i * D) (concat (map f xs))) = f (xs ! i)"
proof (induction xs arbitrary: i)
  case Nil
  then show ?case by simp
next
  case (Cons x xs)
  show ?case
  proof (cases i)
    case 0
    with Cons.prems show ?thesis by simp
  next
    case (Suc j)
    with Cons show ?thesis by simp
  qed
qed

lemma concat_map_batches:
  "concat (map (\<lambda>b. concat (map f b)) bs) = concat (map f (concat bs))"
  by (induction bs) simp_all

lemma vstack_uniform:
  assumes "as \<noteq> []" and "\<forall>a \<in> set as. snd (shape a) = D"
  shows "vstack as = Inr \<lparr>shape = (sum_list (map (\<lambda>b. fst (shape b)) as), D),
                           data = concat (map data as)\<rparr>"
  using assms by (cases as) auto

text \<open>
  C4, as stated, fails on the empty sequence of texts: there is no batch, and stacking
  no array is an error, so no matrix is produced.
\<close>

theorem batch_pipeline_empty_counterexample:
  "(1::nat) \<le> 2 \<and> compute_embeddings 2 stub_encode [] = Inl ValueError"
  by (simp add: compute_embeddings_def and_then_def batches.simps)

text \<open>
  C4, amended. For every non-empty sequence of \<open>N\<close> texts and every batch size
  \<open>B \<ge> 1\<close>, with an encoder that embeds each text of a batch by \<open>vec\<close>, in order, into
  \<open>D\<close> columns: the batches are consecutive (their concatenation is the sequence), none
  is empty or longer than \<open>B\<close>, every batch but the last has exactly \<open>B\<close> texts, and the
  stacked matrix has \<open>N\<close> rows, row \<open>i\<close> being the embedding of text \<open>i\<close>.
\<close>

theorem batch_pipeline_order:
  assumes B: "1 \<le> B" and ne: "texts \<noteq> []"
    and enc: "\<forall>ts. encode ts = Inr \<lparr>shape = (length ts, D), data = concat (map vec ts)\<rparr>"
    and len: "\<forall>t. length (vec t) = D"
  shows "concat (batches B texts 0) = texts \<and>
         (\<forall>b \<in> set (batches B texts 0). b \<noteq> [] \<and> length b \<le> B) \<and>
         (\<forall>b \<in> set (butlast (batches B texts 0)). length b = B) \<and>
         (\<exists>E. compute_embeddings B encode texts = Inr E \<and>
              shape E = (length texts, D) \<and>
              (\<forall>i < length texts. row E i = vec (texts ! i)))"
proof -
  let ?bs = "batches B texts 0"
  let ?g = "\<lambda>ts. \<lparr>shape = (length ts, D), data = concat (map vec ts)\<rparr>"
  from B have B0: "0 < B" by simp
  have c: "concat ?bs = texts"
    using concat_batches [OF B0, of texts 0] by simp
  have t: "traverse encode ?bs = Inr (map ?g ?bs)"
    by (rule traverse_total) (simp add: enc)
  have v: "vstack (map ?g ?bs) =
             Inr \<lparr>shape = (sum_list (map (\<lambda>b. fst (shape b)) (map ?g ?bs)), D),
                  data = concat (map data (map ?g ?bs))\<rparr>"
    by (rule vstack_uniform) (use batches_nonempty [OF B0 ne] in auto)
  have rows: "sum_list (map (\<lambda>b. fst (shape b)) (map ?g ?bs)) = length texts"
    using arg_cong [OF c, of length] by (simp add: length_concat comp_def)
  have dat: "concat (map data (map ?g ?bs)) = concat (map vec texts)"
    by (simp add: comp_def concat_map_batches c)
  let ?E = "\<lparr>shape = (length texts, D), data = concat (map vec texts)\<rparr>"
  have ce: "compute_embeddings B encode texts = Inr ?E"
    using B0 t v rows dat by (simp add: compute_embeddings_def and_then_def)
  have "\<forall>i < length texts. row ?E i = vec (texts ! i)"
    using len by (simp add: row_def row_concat)
  with ce have "\<exists>E. compute_embeddings B encode texts = Inr E \<and>
              shape E = (length texts, D) \<and>
              (\<forall>i < length texts. row E i = vec (texts ! i))"
    by simp
  with c batches_bounds [OF B0] batches_full [OF B0] show ?thesis
    by blast
qed

theorem batch_pipeline_order_witness:
  "(1::nat) \<le> 2 \<and>
   [''a day at the park'', ''stock market fell'', ''hiking trip'', ''interest rates rise''] \<noteq> [] \<and>
   concat (batches 2
     [''a day at the park'', ''stock market fell'', ''hiking trip'', ''interest rates rise''] 0)
     = [''a day at the park'', ''stock market fell'', ''hiking trip'', ''interest rates rise''] \<and>
   (\<exists>E. compute_embeddings 2 stub_encode
          [''a day at the park'', ''stock market fell'', ''hiking trip'', ''interest rates rise'']
          = Inr E \<and>
        shape E = (4, 4) \<and> row E 2 = stub_vec ''hiking trip'')"
proof -
  let ?T = "[''a day at the park'', ''stock market fell'', ''hiking trip'', ''interest rates rise'']"
  have h1: "(1::nat) \<le> 2" by simp
  have h2: "?T \<noteq> []" by simp
  have h3: "\<forall>ts. stub_encode ts = Inr \<lparr>shape = (length ts, 4), data = concat (map stub_vec ts)\<rparr>"
    by (simp add: stub_encode_def)
  have h4: "\<forall>t. length (stub_vec t) = 4"
    by (simp add: stub_vec_def)
  from batch_pipeline_order [OF h1 h2 h3 h4]
  obtain E where c: "concat (batches 2 ?T 0) = ?T"
    and E: "compute_embeddings 2 stub_encode ?T = Inr E" "shape E = (length ?T, 4)"
      "\<forall>i < length ?T. row E i = stub_vec (?T ! i)"
    by blast
  from E(3) have "row E 2 = stub_vec ''hiking trip''"
    by simp
  with h1 c E(1,2) show ?thesis
    by simp
qed

section \<open>The label encoding\<close>

lemma strs_of_map_LStr: "strs_of (map LStr ss) = Some ss"
  by (induction ss) simp_all

lemma ints_of_map_LInt: "ints_of (map LInt is) = Some is"
  by (induction "is") simp_all

lemma traverse_ex:
  "\<forall>x \<in> set xs. \<exists>v. f x = Inr v \<Longrightarrow> \<exists>vs. traverse f xs = Inr vs \<and> length vs = length xs"
proof (induction xs)
  case Nil
  then show ?case by simp
next
  case (Cons x xs)
  then obtain v vs where "f x = Inr v" "traverse f xs = Inr vs" "length vs = length xs"
    by auto
  then show ?case by simp
qed

lemma enumerate_id_map:
  "map (\<lambda>(i, lbl). (lbl, int i)) (List.enumerate 0 U) = zip U (map int [0..<length U])"
  by (simp add: enumerate_eq_zip zip_map2 zip_commute [of U] split_def)
  
lemma dict_get_zip:
  "s \<in> set U \<Longrightarrow> \<exists>v. dict_get (zip U (map int [0..<length U])) s = Inr v"
proof -
  assume "s \<in> set U"
  then have "s \<in> fst ` set (zip U (map int [0..<length U]))"
    by (simp add: set_zip_leftD in_set_conv_nth image_iff set_zip) force
  then have "map_of (zip U (map int [0..<length U])) s \<noteq> None"
    by (simp add: map_of_eq_None_iff)
  then show ?thesis by (auto simp add: dict_get_def split: option.splits)
qed

lemma str_branch_strings:
  "\<exists>ys. str_branch (map LStr ss) =
      Inr \<lparr>unique_labels = map LStr (sorted_list_of_set (set ss)),
           label_to_id = zip (sorted_list_of_set (set ss)) (map int [0..<card (set ss)]),
           y = ys\<rparr> \<and> length ys = length ss"
proof -
  let ?U = "sort (remdups ss)"
  have U: "?U = sorted_list_of_set (set ss)"
    by (simp add: sorted_list_of_set_sort_remdups)
  have n: "length ?U = card (set ss)"
    by (simp add: U)
  have "\<forall>s \<in> set ss. \<exists>v. dict_get (zip ?U (map int [0..<length ?U])) s = Inr v"
    by (intro ballI dict_get_zip) simp
  from traverse_ex [OF this] obtain ids
    where "traverse (dict_get (zip ?U (map int [0..<length ?U]))) ss = Inr ids" "length ids = length ss"
    by blast
  then show ?thesis
    unfolding str_branch_def strs_of_map_LStr
    by (simp add: enumerate_id_map and_then_def np_array_int32_def Let_def
          sorted_list_of_set_sort_remdups length_remdups_card_conv)
qed


lemma id_map_zero:
  assumes "U = sorted_list_of_set A" "finite A" "A \<noteq> {}"
  shows "map_of (zip U (map int [0..<length U])) (Min A) = Some 0"
proof -
  from assms have "U \<noteq> []" by auto
  then obtain x xs where U: "U = x # xs" by (cases U) auto
  have "sorted U" "set U = A" using assms by simp_all
  with U have "Min A = x"
    by (intro Min_eqI) (use assms in auto)
  then show ?thesis
    by (simp add: U upt_conv_Cons del: upt_Suc)
qed

lemma id_map_mono:
  assumes "sorted_wrt (<) (U :: string list)"
    and "map_of (zip U (map int [0..<length U])) a = Some i"
    and "map_of (zip U (map int [0..<length U])) b = Some j"
  shows "(a < b) = (i < j)"
proof -
  from assms(2) have "(a, i) \<in> set (zip U (map int [0..<length U]))"
    by (rule map_of_SomeD)
  then obtain k where k: "k < length U" "a = U ! k" "i = int k"
    by (auto simp add: set_zip)
  from assms(3) have "(b, j) \<in> set (zip U (map int [0..<length U]))"
    by (rule map_of_SomeD)
  then obtain l where l: "l < length U" "b = U ! l" "j = int l"
    by (auto simp add: set_zip)
  consider "k < l" | "k = l" | "l < k" by linarith
  then show ?thesis
  proof cases
    case 1
    with sorted_wrt_nth_less [OF assms(1) 1 l(1)] k l show ?thesis by simp
  next
    case 2
    with k l show ?thesis by simp
  next
    case 3
    with sorted_wrt_nth_less [OF assms(1) 3 k(1)] k l show ?thesis by auto
  qed
qed

text \<open>
  C5. For every list of string labels the map from labels to ids is the same for every
  permutation of the list, and for every list with the same set of distinct labels; it
  lists the distinct labels in ascending order with the ids 0, 1, 2, and so on, so the
  smallest label has id 0 and a greater label a greater id. (On the empty list the
  encoder raises the same \<open>IndexError\<close> whatever the order.)
\<close>

theorem label_map_deterministic:
  fixes ls ls' :: "string list"
  assumes perm: "mset ls' = mset ls"
  shows "map_sum id label_to_id (label_encoder (map LStr ls'))
           = map_sum id label_to_id (label_encoder (map LStr ls)) \<and>
         (\<forall>ks. set ks = set ls \<longrightarrow>
            map_sum id label_to_id (label_encoder (map LStr ks))
              = map_sum id label_to_id (label_encoder (map LStr ls))) \<and>
         (ls \<noteq> [] \<longrightarrow>
           (\<exists>enc. label_encoder (map LStr ls) = Inr enc \<and>
              map fst (label_to_id enc) = sorted_list_of_set (set ls) \<and>
              map snd (label_to_id enc) = map int [0..<card (set ls)] \<and>
              map_of (label_to_id enc) (Min (set ls)) = Some 0 \<and>
              (\<forall>a b i j. map_of (label_to_id enc) a = Some i \<longrightarrow>
                         map_of (label_to_id enc) b = Some j \<longrightarrow> (a < b) = (i < j))))"
proof -
  have enc: "\<exists>ys. label_encoder (map LStr ss) =
      Inr \<lparr>unique_labels = map LStr (sorted_list_of_set (set ss)),
           label_to_id = zip (sorted_list_of_set (set ss)) (map int [0..<card (set ss)]),
           y = ys\<rparr>" if "ss \<noteq> []" for ss
    using that str_branch_strings [of ss] by (cases ss) (auto simp add: label_encoder_def)
  have same: "map_sum id label_to_id (label_encoder (map LStr ks))
           = map_sum id label_to_id (label_encoder (map LStr ls))" if sets: "set ks = set ls" for ks
  proof (cases "ls = []")
    case True
    with sets have "ks = []" by simp
    with True show ?thesis by simp
  next
    case False
    with sets have "ks \<noteq> []" by auto
    from enc [OF this] enc [OF False] sets show ?thesis by auto
  qed
  from perm have first: "map_sum id label_to_id (label_encoder (map LStr ls'))
           = map_sum id label_to_id (label_encoder (map LStr ls))"
    by (intro same mset_eq_setD)
  have second: "\<exists>enc. label_encoder (map LStr ls) = Inr enc \<and>
              map fst (label_to_id enc) = sorted_list_of_set (set ls) \<and>
              map snd (label_to_id enc) = map int [0..<card (set ls)] \<and>
              map_of (label_to_id enc) (Min (set ls)) = Some 0 \<and>
              (\<forall>a b i j. map_of (label_to_id enc) a = Some i \<longrightarrow>
                         map_of (label_to_id enc) b = Some j \<longrightarrow> (a < b) = (i < j))"
    if ne: "ls \<noteq> []"
  proof -
    let ?U = "sorted_list_of_set (set ls)"
    have n: "length ?U = card (set ls)" by simp
    from enc [OF ne] obtain ys where e: "label_encoder (map LStr ls) =
      Inr \<lparr>unique_labels = map LStr ?U, label_to_id = zip ?U (map int [0..<length ?U]), y = ys\<rparr>"
      by auto
    have z: "map_of (zip ?U (map int [0..<length ?U])) (Min (set ls)) = Some 0"
      by (rule id_map_zero [OF refl]) (use ne in auto)
    have m: "(a < b) = (i < j)"
      if "map_of (zip ?U (map int [0..<length ?U])) a = Some i"
        "map_of (zip ?U (map int [0..<length ?U])) b = Some j" for a b i j
      using id_map_mono [OF strict_sorted_list_of_set that] .
    show ?thesis
      unfolding e using z m by (simp del: length_sorted_list_of_set) (simp add: n)
  qed
  from first same second show ?thesis by blast
qed

theorem label_map_deterministic_witness:
  "mset [''finance'', ''leisure'', ''leisure'', ''finance'']
     = mset [''leisure'', ''finance'', ''leisure'', ''finance''] \<and>
   map_sum id label_to_id
     (label_encoder (map LStr [''finance'', ''leisure'', ''leisure'', ''finance'']))
     = map_sum id label_to_id
         (label_encoder (map LStr [''leisure'', ''finance'', ''leisure'', ''finance''])) \<and>
   map_sum id label_to_id (label_encoder (map LStr [''leisure'', ''finance'']))
     = map_sum id label_to_id
         (label_encoder (map LStr [''leisure'', ''finance'', ''leisure'', ''finance''])) \<and>
   (\<exists>enc. label_encoder (map LStr [''leisure'', ''finance'', ''leisure'', ''finance'']) = Inr enc \<and>
      map fst (label_to_id enc) = [''finance'', ''leisure''] \<and>
      map snd (label_to_id enc) = [0, 1] \<and>
      map_of (label_to_id enc) ''finance'' = Some 0)"
proof -
  let ?L = "[''leisure'', ''finance'', ''leisure'', ''finance'']"
  have p: "mset [''finance'', ''leisure'', ''leisure'', ''finance''] = mset ?L"
    by simp
  have k: "set [''leisure'', ''finance''] = set ?L"
    by auto
  have ne: "?L \<noteq> []"
    by simp
  have s: "sorted_list_of_set (set ?L) = [''finance'', ''leisure'']"
    by (subst sorted_list_of_set_sort_remdups) simp
  have c: "map int [0..<card (set ?L)] = [0, 1]"
    by (simp add: card_insert_if upt_conv_Cons)
  have m: "Min (set ?L) = ''finance''"
    by simp
  note t = label_map_deterministic [OF p]
  have a: "map_sum id label_to_id
      (label_encoder (map LStr [''finance'', ''leisure'', ''leisure'', ''finance'']))
    = map_sum id label_to_id (label_encoder (map LStr ?L))"
    by (rule t [THEN conjunct1])
  have b: "map_sum id label_to_id (label_encoder (map LStr [''leisure'', ''finance'']))
    = map_sum id label_to_id (label_encoder (map LStr ?L))"
    by (rule t [THEN conjunct2, THEN conjunct1, THEN spec, THEN mp, OF k])
  from t [THEN conjunct2, THEN conjunct2, THEN mp, OF ne]
  obtain enc where e: "label_encoder (map LStr ?L) = Inr enc"
    and f1: "map fst (label_to_id enc) = sorted_list_of_set (set ?L)"
    and f2: "map snd (label_to_id enc) = map int [0..<card (set ?L)]"
    and f3: "map_of (label_to_id enc) (Min (set ?L)) = Some 0"
    by (elim exE conjE) (rule that, assumption+)
  from f1 have g1: "map fst (label_to_id enc) = [''finance'', ''leisure'']"
    unfolding s .
  from f2 have g2: "map snd (label_to_id enc) = [0, 1]"
    unfolding c .
  from f3 have g3: "map_of (label_to_id enc) ''finance'' = Some 0"
    unfolding m .
  show ?thesis
    by (intro conjI exI [of _ enc]) (rule p a b e g1 g2 g3)+
qed

lemma int_branch_ints:
  "int_branch (map LInt is) =
     Inr \<lparr>unique_labels = map LInt (sorted_list_of_set (set is)),
          label_to_id = map (\<lambda>i. (str_int i, i)) (sorted_list_of_set (set is)),
          y = np_array_int32 is\<rparr>"
  by (simp add: int_branch_def ints_of_map_LInt sorted_list_of_set_sort_remdups Let_def)

text \<open>
  C8, as stated, fails: for the labels 10 and 9 the exported map sends the key \<open>"9"\<close>
  to 9 and the key \<open>"10"\<close> to 10, while the sorted-string order of the distinct labels
  would give \<open>"10"\<close> the id 0 and \<open>"9"\<close> the id 1.
\<close>

theorem integer_labels_counterexample:
  "map_sum id label_to_id (label_encoder [LInt 10, LInt 9]) = Inr [(''9'', 9), (''10'', 10)] \<and>
   spec_sorted_string_ids [10, 9] = [(''10'', 0), (''9'', 1)]"
  by (simp add: label_encoder_def int_branch_def spec_sorted_string_ids_def str_int_def
      str_nat.simps)

text \<open>
  C8, amended. For every non-empty list of integer labels (within the 32-bit range) the
  encoder lists the distinct labels in ascending numeric order, maps the decimal string
  of each distinct label to the label's own integer value, and the encoded vector is
  the list of labels itself.
\<close>

theorem integer_labels_keep_their_value:
  assumes "is \<noteq> []" and "\<forall>i \<in> set is. - (2 ^ 31) \<le> i \<and> i < 2 ^ 31"
  shows "\<exists>enc. label_encoder (map LInt is) = Inr enc \<and>
           unique_labels enc = map LInt (sorted_list_of_set (set is)) \<and>
           label_to_id enc = map (\<lambda>i. (str_int i, i)) (sorted_list_of_set (set is)) \<and>
           map sint (y enc) = is"
proof -
  have "map sint (np_array_int32 is) = is"
    unfolding np_array_int32_def map_map
  proof (rule map_idI)
    fix i assume "i \<in> set is"
    with assms(2) have "- (2 ^ 31) \<le> i" "i < 2 ^ 31" by auto
    then show "(sint \<circ> (word_of_int :: int \<Rightarrow> int32)) i = i"
      by (simp add: signed_of_int signed_take_bit_int_eq_self)
  qed
  moreover have "label_encoder (map LInt is) = int_branch (map LInt is)"
    using assms(1) by (cases "is") (simp_all add: label_encoder_def)
  ultimately show ?thesis
    by (simp add: int_branch_ints)
qed


theorem integer_labels_keep_their_value_witness:
  "[10, 9, 10] \<noteq> ([] :: int list) \<and>
   (\<exists>enc. label_encoder [LInt 10, LInt 9, LInt 10] = Inr enc \<and>
      unique_labels enc = [LInt 9, LInt 10] \<and>
      label_to_id enc = [(''9'', 9), (''10'', 10)] \<and>
      map sint (y enc) = [10, 9, 10])"
proof -
  have s: "sorted_list_of_set (set [10, 9, 10 :: int]) = [9, 10]"
    by (subst sorted_list_of_set_sort_remdups) simp
  have k: "str_int 9 = ''9''" "str_int 10 = ''10''"
    by (simp_all add: str_int_def str_nat.simps)
  have h1: "[10, 9, 10] \<noteq> ([] :: int list)"
    by simp
  have h2: "\<forall>i \<in> set [10, 9, 10 :: int]. - (2 ^ 31) \<le> i \<and> i < 2 ^ 31"
    by simp
  from integer_labels_keep_their_value [OF h1 h2, unfolded s] show ?thesis
    by (simp add: k)
qed

section \<open>Labels and count\<close>

lemma strs_of_length: "strs_of ls = Some ss \<Longrightarrow> length ss = length ls"
proof (induction ls arbitrary: ss)
  case Nil
  then show ?case by simp
next
  case (Cons l ls)
  then show ?case by (cases l) auto
qed

lemma ints_of_length: "ints_of ls = Some is \<Longrightarrow> length is = length ls"
proof (induction ls arbitrary: "is")
  case Nil
  then show ?case by simp
next
  case (Cons l ls)
  then show ?case by (cases l) auto
qed

lemma traverse_length: "traverse f xs = Inr vs \<Longrightarrow> length vs = length xs"
  by (induction xs arbitrary: vs) (auto split: sum.splits)

lemma label_encoder_length:
  assumes "label_encoder labels_raw = Inr enc"
  shows "length (y enc) = length labels_raw"
proof (cases labels_raw)
  case Nil
  with assms show ?thesis by (simp add: label_encoder_def)
next
  case (Cons l0 rest)
  show ?thesis
  proof (cases "isinstance_str l0")
    case True
    with assms Cons have "str_branch labels_raw = Inr enc"
      by (simp add: label_encoder_def)
    then obtain ss f ids where "strs_of labels_raw = Some ss" "traverse f ss = Inr ids"
      "y enc = np_array_int32 ids"
      by (auto simp add: str_branch_def and_then_def Let_def split: option.splits sum.splits)
    then show ?thesis
      using strs_of_length [of labels_raw ss] traverse_length [of f ss ids]
      by (simp add: np_array_int32_def)
  next
    case False
    with assms Cons have "int_branch labels_raw = Inr enc"
      by (simp add: label_encoder_def)
    then obtain js where "ints_of labels_raw = Some js" "y enc = np_array_int32 js"
      by (auto simp add: int_branch_def Let_def split: option.splits)
    then show ?thesis
      using ints_of_length [of labels_raw js] by (simp add: np_array_int32_def)
  qed
qed

text \<open>
  C7, as stated, fails: with \<open>count = 1\<close> and two labels the matrix loads and the
  labels are encoded; nothing compares the two lengths.
\<close>

theorem label_count_counterexample:
  "int (length [LStr ''leisure'', LStr ''finance''])
     \<noteq> count \<lparr>count = 1, dim = 1, dtype = Some (JStr ''float32''), model = ''m'', normalized = True\<rparr> \<and>
   load_X \<lparr>count = 1, dim = 1, dtype = Some (JStr ''float32''), model = ''m'', normalized = True\<rparr>
     [0, 0, 0x80, 0x3F] = Inr (F32 \<lparr>shape = (1, 1), data = [0x3F800000]\<rparr>) \<and>
   label_encoder [LStr ''leisure'', LStr ''finance'']
     = Inr \<lparr>unique_labels = [LStr ''finance'', LStr ''leisure''],
            label_to_id = [(''finance'', 0), (''leisure'', 1)], y = [1, 0]\<rparr>"
  by (simp add: load_X_def dtype_of_def reshape_def and_then_def fromfile32_def items.simps
      label_encoder_def str_branch_def dict_get_def np_array_int32_def enumerate_eq_zip)

text \<open>
  C7, amended. The training script does not compare the number of labels with
  \<open>count\<close>: whenever the matrix loads and the labels encode, the encoded vector has one
  id per label, whatever \<open>count\<close> is, and the script goes on to call the optimizer with
  the matrix and that vector; only the optimizer can refuse a mismatch.
\<close>

theorem label_count_not_checked:
  assumes "load_X m bin = Inr X" and "label_encoder labels_raw = Inr enc"
  shows "length (y enc) = length labels_raw \<and>
         train astype_f32 fit m bin labels_raw
           = and_then (fit X (y enc)) (\<lambda>clf. Inr (export astype_f32 m enc clf))"
  using assms label_encoder_length [OF assms(2)] by (simp add: train_def and_then_def)

theorem label_count_not_checked_witness:
  "load_X \<lparr>count = 1, dim = 1, dtype = Some (JStr ''float32''), model = ''m'', normalized = True\<rparr>
     [0, 0, 0x80, 0x3F] = Inr (F32 \<lparr>shape = (1, 1), data = [0x3F800000]\<rparr>) \<and>
   label_encoder [LStr ''leisure'', LStr ''finance'']
     = Inr \<lparr>unique_labels = [LStr ''finance'', LStr ''leisure''],
            label_to_id = [(''finance'', 0), (''leisure'', 1)], y = [1, 0]\<rparr> \<and>
   train stub_astype_f32 stub_fit
     \<lparr>count = 1, dim = 1, dtype = Some (JStr ''float32''), model = ''m'', normalized = True\<rparr>
     [0, 0, 0x80, 0x3F] [LStr ''leisure'', LStr ''finance'']
     = Inr \<lparr>num_classes = 2, num_features = 1,
            classes = [LStr ''finance'', LStr ''leisure''],
            export_label_to_id = [(''finance'', 0), (''leisure'', 1)],
            weights = [[0]], bias = [0]\<rparr>"
proof -
  let ?m = "\<lparr>count = 1, dim = 1, dtype = Some (JStr ''float32''), model = ''m'', normalized = True\<rparr>"
  have l: "load_X ?m [0, 0, 0x80, 0x3F] = Inr (F32 \<lparr>shape = (1, 1), data = [0x3F800000]\<rparr>)"
    by (simp add: load_X_def dtype_of_def reshape_def and_then_def fromfile32_def items.simps)
  have e: "label_encoder [LStr ''leisure'', LStr ''finance'']
     = Inr \<lparr>unique_labels = [LStr ''finance'', LStr ''leisure''],
            label_to_id = [(''finance'', 0), (''leisure'', 1)], y = [1, 0]\<rparr>"
    by (simp add: label_encoder_def str_branch_def dict_get_def and_then_def np_array_int32_def
        enumerate_eq_zip)
  from label_count_not_checked [OF l e, of stub_astype_f32 stub_fit] l e show ?thesis
    by (simp add: and_then_def stub_fit_def stub_astype_f32_def export_def tolist_def astype_def
        row_def)
qed

section \<open>The exported document\<close>

text \<open>
  C6. The exporter compares no shape, and the code does not keep what line 62 says of
  the weights, \<open>shape: (classes, features)\<close>. On a bundle of two samples of one feature
  with the two labels \<open>leisure\<close> and \<open>finance\<close>, and an optimizer that returns one row of
  coefficients and one intercept (what the library returns for two classes), the
  document is exported: it has two classes, and one row of weights and one bias.
\<close>

theorem export_two_classes_one_row:
  "train stub_astype_f32 stub_fit
     \<lparr>count = 2, dim = 1, dtype = Some (JStr ''float32''), model = ''m'', normalized = True\<rparr>
     [0, 0, 0x80, 0x3F, 0, 0, 0x80, 0xBF] [LStr ''leisure'', LStr ''finance'']
     = Inr \<lparr>num_classes = 2, num_features = 1,
            classes = [LStr ''finance'', LStr ''leisure''],
            export_label_to_id = [(''finance'', 0), (''leisure'', 1)],
            weights = [[0]], bias = [0]\<rparr> \<and>
   length [[0 :: float32]] \<noteq> length [LStr ''finance'', LStr ''leisure''] \<and>
   length [0 :: float32] \<noteq> length [LStr ''finance'', LStr ''leisure'']"
  by (simp add: train_def load_X_def dtype_of_def reshape_def and_then_def fromfile32_def
      items.simps label_encoder_def str_branch_def dict_get_def np_array_int32_def
      enumerate_eq_zip stub_fit_def stub_astype_f32_def export_def tolist_def astype_def row_def)

section \<open>The empty corpus\<close>

text \<open>
  C9, as stated, fails: on an empty table the embedding script raises when it stacks no
  batch, and writes no artifact.
\<close>

theorem empty_corpus_counterexample:
  "embedder_main BATCH_SIZE stub_encode [] = Inl ValueError"
  by (simp add: embedder_main_def dropna_def compute_embeddings_def BATCH_SIZE_def and_then_def
      batches.simps)

text \<open>
  C9, amended. When no row is left after dropping the incomplete ones, the embedding
  script fails with the error of stacking no batch, whatever the batch size and the
  encoder, so no artifact is written. On an empty labels document the training script
  fails before fitting and exporting: with the loader's error when the matrix does not
  load, with the \<open>IndexError\<close> of reading the first label otherwise.
\<close>

theorem empty_corpus_fails:
  "(dropna df = [] \<longrightarrow> embedder_main B encode df = Inl ValueError) \<and>
   train astype_f32 fit m bin []
     = (case load_X m bin of Inl e \<Rightarrow> Inl e | Inr X \<Rightarrow> Inl IndexError)"
  by (simp add: embedder_main_def compute_embeddings_def and_then_def batches.simps train_def
      label_encoder_def split: sum.splits)

theorem empty_corpus_fails_witness:
  "dropna [(NaN, Str ''leisure''), (Str ''hiking trip'', NaN)] = [] \<and>
   embedder_main BATCH_SIZE stub_encode [(NaN, Str ''leisure''), (Str ''hiking trip'', NaN)]
     = Inl ValueError \<and>
   train stub_astype_f32 stub_fit
     \<lparr>count = 0, dim = 4, dtype = Some (JStr ''float32''), model = ''m'', normalized = True\<rparr> [] []
     = Inl IndexError"
proof -
  have d: "dropna [(NaN, Str ''leisure''), (Str ''hiking trip'', NaN)] = []"
    by (simp add: dropna_def)
  have l: "load_X \<lparr>count = 0, dim = 4, dtype = Some (JStr ''float32''), model = ''m'', normalized = True\<rparr> []
             = Inr (F32 \<lparr>shape = (0, 4), data = []\<rparr>)"
    by (simp add: load_X_def dtype_of_def reshape_def and_then_def fromfile32_def items.simps)
  from empty_corpus_fails
    [of "[(NaN, Str ''leisure''), (Str ''hiking trip'', NaN)]" BATCH_SIZE stub_encode
        stub_astype_f32 stub_fit
        "\<lparr>count = 0, dim = 4, dtype = Some (JStr ''float32''), model = ''m'', normalized = True\<rparr>" "[]"]
    d l
  show ?thesis by simp
qed

section \<open>The labels written by the embedding script\<close>

lemma batches_Nil: "batches B [] start = []"
  by (subst batches.simps) simp

lemma compute_embeddings_nonempty:
  assumes "compute_embeddings B encode texts = Inr E"
  shows "texts \<noteq> []"
proof
  assume "texts = []"
  with assms show False
    by (simp add: compute_embeddings_def and_then_def batches_Nil split: if_splits)
qed

lemma label_encoder_strings:
  "ss \<noteq> [] \<Longrightarrow> label_encoder (map LStr ss) = str_branch (map LStr ss)"
  by (cases ss) (simp_all add: label_encoder_def)

text \<open>
  C10. Every labels document written by the embedding script is a non-empty list of
  strings, so on it the label encoder takes the branch of string labels, which succeeds;
  the branch of integer labels is not reached.
\<close>

theorem writer_labels_are_strings:
  assumes "embedder_main B encode df = Inr b"
  shows "label_out b \<noteq> [] \<and>
         (\<forall>l \<in> set (label_out b). isinstance_str l) \<and>
         label_encoder (label_out b) = str_branch (label_out b) \<and>
         (\<exists>enc. label_encoder (label_out b) = Inr enc)"
proof -
  let ?df = "dropna df"
  let ?texts = "map (\<lambda>(t, l). astype_str t) ?df"
  let ?labels = "map (\<lambda>(t, l). astype_str l) ?df"
  from assms obtain E where E: "compute_embeddings B encode ?texts = Inr E"
    and b: "b = write_bundle E ?labels"
    by (auto simp add: embedder_main_def and_then_def Let_def split: sum.splits)
  from compute_embeddings_nonempty [OF E] have ne: "?labels \<noteq> []"
    by simp
  from b have lo: "label_out b = map LStr ?labels"
    by (simp add: write_bundle_def split_def Let_def)
  from str_branch_strings [of ?labels] obtain enc
    where "str_branch (map LStr ?labels) = Inr enc"
    by blast
  with ne lo label_encoder_strings [OF ne] show ?thesis
    by auto
qed

theorem writer_labels_are_strings_witness:
  "\<exists>b. embedder_main 2 stub_encode
         [(Str ''a day at the park'', Str ''leisure''), (Str ''no label'', NaN),
          (Str ''stock market fell'', Num 7)] = Inr b \<and>
       label_out b = [LStr ''leisure'', LStr ''7''] \<and>
       label_encoder (label_out b) = str_branch (label_out b)"
proof -
  let ?df = "[(Str ''a day at the park'', Str ''leisure''), (Str ''no label'', NaN),
          (Str ''stock market fell'', Num 7)]"
  let ?E = "\<lparr>shape = (Suc (Suc 0), 4),
      data = stub_vec ''a day at the park'' @ stub_vec ''stock market fell''\<rparr>"
  have e: "embedder_main 2 stub_encode ?df = Inr (write_bundle ?E [''leisure'', ''7''])"
    by (simp add: embedder_main_def dropna_def compute_embeddings_def and_then_def
        batches.simps stub_encode_def str_int_def str_nat.simps)
  have l: "label_out (write_bundle ?E [''leisure'', ''7'']) = [LStr ''leisure'', LStr ''7'']"
    by (simp add: write_bundle_def)
  from writer_labels_are_strings [OF e] e l show ?thesis
    by simp
qed

end
